theory Spec2Isabelle
  imports Main "HOL-Library.Sublist"
begin

section \<open>Strings of the page\<close>

text \<open>
  The page is \<^verbatim>\<open>src/app/page.tsx\<close>. Its texts are JavaScript strings; the model uses
  Isabelle strings and covers texts written in ASCII, where \<^verbatim>\<open>toLowerCase\<close> maps
  \<^verbatim>\<open>A\<close>..\<^verbatim>\<open>Z\<close> to \<^verbatim>\<open>a\<close>..\<^verbatim>\<open>z\<close> and leaves every other character alone.
\<close>

definition lower_char :: "char \<Rightarrow> char" where
  "lower_char c =
     (let n = (of_char c :: nat) in if 65 \<le> n \<and> n \<le> 90 then char_of (n + 32) else c)"

definition toLowerCase :: "string \<Rightarrow> string" where
  "toLowerCase s = map lower_char s"

text \<open>\<^verbatim>\<open>String.prototype.includes\<close>: the key occurs as a contiguous run of characters.
  (\<open>includes\<close> is a reserved word of the theory language, hence the suffix.)\<close>

fun includes_str :: "string \<Rightarrow> string \<Rightarrow> bool" where
  "includes_str [] k = (k = [])"
| "includes_str (c # cs) k = (prefix k (c # cs) \<or> includes_str cs k)"

text \<open>
  \<^verbatim>\<open>Number.prototype.toString\<close> on a non-negative integer (decimal digits, most
  significant first, no leading zero) and \<^verbatim>\<open>String.prototype.padStart\<close>.
  The source computes on JavaScript numbers, which are doubles. Natural numbers are
  their model below \<open>2 ^ 53\<close> only: there every integer is a double, division, floor and
  remainder are exact, and \<^verbatim>\<open>toString\<close> prints plain decimal digits. From \<open>2 ^ 53\<close> on the
  source rounds, and from \<open>10 ^ 21\<close> on it prints an exponent; nothing is stated about
  \<open>formatDuration\<close> there.
\<close>

definition digit_char :: "nat \<Rightarrow> char" where
  "digit_char d = char_of (48 + d)"

fun toString :: "nat \<Rightarrow> string" where
  "toString n =
     (if n < 10 then [digit_char n] else toString (n div 10) @ [digit_char (n mod 10)])"

declare toString.simps [simp del]

definition padStart :: "nat \<Rightarrow> string \<Rightarrow> string \<Rightarrow> string" where
  "padStart targetLength padString s =
     (if targetLength \<le> length s \<or> padString = [] then s
      else take (targetLength - length s)
             (concat (replicate (targetLength - length s) padString)) @ s)"

definition formatDuration :: "nat \<Rightarrow> string" where
  "formatDuration seconds =
     (let mins = seconds div 60;
          secs = seconds mod 60
      in padStart 2 ''0'' (toString mins) @ '':'' @ padStart 2 ''0'' (toString secs))"

section \<open>The rule matcher\<close>

text \<open>
  \<^verbatim>\<open>generateResponse\<close> reads the clock (\<^verbatim>\<open>new Date()\<close>) in its time and date rules and
  renders it with the platform's locale formatting. The clock reading is the parameter
  \<open>now\<close> (milliseconds), the two renderings are the fields of \<open>platform\<close>.
\<close>

record platform =
  toLocaleTimeString :: "nat \<Rightarrow> string"
  toLocaleDateString :: "nat \<Rightarrow> string"

definition greeting_reply :: string where
  "greeting_reply = ''Hello! It's great to hear from you. What can I assist you with?''"

definition wellbeing_reply :: string where
  "wellbeing_reply =
     ''I'm functioning perfectly, thank you for asking! How can I help you today?''"

definition appointment_reply :: string where
  "appointment_reply =
     ''I can help you schedule an appointment. What date and time works best for you?''"

definition weather_reply :: string where
  "weather_reply =
     ''I can help with weather information. Which location are you interested in?''"

definition help_reply :: string where
  "help_reply = ''I'm here to assist you with scheduling appointments, answering questions, or providing information. What do you need?''"

definition thanks_reply :: string where
  "thanks_reply = ''You're very welcome! Is there anything else I can help you with?''"

definition farewell_reply :: string where
  "farewell_reply = ''Goodbye! Have a wonderful day. Feel free to call again anytime!''"

definition identity_reply :: string where
  "identity_reply =
     ''I'm an AI calling agent designed to assist you with various tasks and inquiries.''"

definition time_reply :: "platform \<Rightarrow> nat \<Rightarrow> string" where
  "time_reply L now = ''The current time is '' @ toLocaleTimeString L now @ ''.''"

definition date_reply :: "platform \<Rightarrow> nat \<Rightarrow> string" where
  "date_reply L now = ''Today is '' @ toLocaleDateString L now @ ''.''"

definition fallback_reply :: string where
  "fallback_reply =
     ''I understand. Could you tell me more about what you need assistance with?''"

definition generateResponse :: "platform \<Rightarrow> nat \<Rightarrow> string \<Rightarrow> string" where
  "generateResponse L now userInput =
     (let input = toLowerCase userInput in
      if includes_str input ''hello'' \<or> includes_str input ''hi'' then greeting_reply
      else if includes_str input ''how are you'' then wellbeing_reply
      else if includes_str input ''appointment'' \<or> includes_str input ''schedule''
        then appointment_reply
      else if includes_str input ''weather'' then weather_reply
      else if includes_str input ''help'' then help_reply
      else if includes_str input ''thank'' then thanks_reply
      else if includes_str input ''bye'' \<or> includes_str input ''goodbye'' then farewell_reply
      else if includes_str input ''name'' then identity_reply
      else if includes_str input ''time'' then time_reply L now
      else if includes_str input ''date'' then date_reply L now
      else fallback_reply)"

section \<open>The call session\<close>

text \<open>
  The component state of \<^verbatim>\<open>Home\<close>: the five \<^verbatim>\<open>useState\<close> cells, the three refs, and
  what the browser holds for the page, namely the pending \<^verbatim>\<open>setTimeout\<close> callbacks,
  the running \<^verbatim>\<open>setInterval\<close> timers and the clock (milliseconds).
  \<^item> \<open>recognitionRef\<close> is \<open>None\<close> when the browser has no speech recognition, otherwise
    \<open>Some b\<close> where \<open>b\<close> says whether the recogniser has been started.
  \<^item> \<open>synthRef\<close> is \<open>None\<close> without speech synthesis, otherwise the queue of utterances
    that are being spoken or wait to be spoken.
  \<^item> \<open>timerRef\<close> holds the id of the interval timer; ids start at 1, so that every id is
    truthy as the test \<^verbatim>\<open>if (timerRef.current)\<close> expects.
\<close>

datatype CallStatus = idle | connecting | active | ended

datatype Role = user | assistant

record Message =
  role :: Role
  content :: string
  timestamp :: nat

text \<open>An utterance carries its text; rate 0.9, pitch 1 and volume 1 are the same for all.\<close>

record Utterance =
  utterance_text :: string

text \<open>The three closures handed to \<^verbatim>\<open>setTimeout\<close>: in \<^verbatim>\<open>startCall\<close> (1500 ms), in
  \<^verbatim>\<open>endCall\<close> (2000 ms) and in \<^verbatim>\<open>handleUserSpeech\<close> (500 ms, closed over the text).\<close>

datatype callback = Connect | Hangup | Reply string

record state =
  callStatus :: CallStatus
  messages :: "Message list"
  isRecording :: bool
  transcript :: string
  callDuration :: nat
  recognitionRef :: "bool option"
  synthRef :: "Utterance list option"
  timerRef :: "nat option"
  timeouts :: "(nat \<times> callback) list"
  intervals :: "(nat \<times> nat) list"
  next_id :: nat
  clock :: nat

definition init :: "bool \<Rightarrow> bool \<Rightarrow> state" where
  "init hasRecognition hasSynthesis =
     \<lparr>callStatus = idle, messages = [], isRecording = False, transcript = [],
      callDuration = 0,
      recognitionRef = (if hasRecognition then Some False else None),
      synthRef = (if hasSynthesis then Some [] else None),
      timerRef = None, timeouts = [], intervals = [], next_id = 1, clock = 0\<rparr>"

definition greeting :: string where
  "greeting = ''Hello! I'm your AI calling agent. How can I help you today?''"

definition addMessage :: "Role \<Rightarrow> string \<Rightarrow> state \<Rightarrow> state" where
  "addMessage r c s =
     s\<lparr>messages := messages s @ [\<lparr>role = r, content = c, timestamp = clock s\<rparr>]\<rparr>"

text \<open>\<^verbatim>\<open>speak\<close>: \<^verbatim>\<open>cancel()\<close> empties the queue, \<^verbatim>\<open>speak(utterance)\<close> appends to it.\<close>

definition speak :: "string \<Rightarrow> state \<Rightarrow> state" where
  "speak txt s =
     (case synthRef s of
        None \<Rightarrow> s
      | Some q \<Rightarrow> s\<lparr>synthRef := Some ([] @ [\<lparr>utterance_text = txt\<rparr>])\<rparr>)"

definition startCall :: "state \<Rightarrow> state" where
  "startCall s =
     s\<lparr>callStatus := connecting, timeouts := timeouts s @ [(clock s + 1500, Connect)]\<rparr>"

text \<open>
  The callback of \<^verbatim>\<open>startCall\<close>. \<^verbatim>\<open>start()\<close> on a recogniser that is already started
  throws (InvalidStateError), which ends the callback before \<^verbatim>\<open>setIsRecording(true)\<close>;
  the state updates queued before it stay.
\<close>

definition connect_callback :: "state \<Rightarrow> state" where
  "connect_callback s =
     (let s1 = s\<lparr>callStatus := active, messages := [], callDuration := 0\<rparr>;
          s2 = s1\<lparr>timerRef := Some (next_id s1),
                  intervals := intervals s1 @ [(next_id s1, clock s1 + 1000)],
                  next_id := next_id s1 + 1\<rparr>;
          s3 = addMessage assistant greeting s2;
          s4 = speak greeting s3
      in case recognitionRef s4 of
           None \<Rightarrow> s4
         | Some started \<Rightarrow>
             if started then s4 else s4\<lparr>recognitionRef := Some True, isRecording := True\<rparr>)"

definition endCall :: "state \<Rightarrow> state" where
  "endCall s =
     (let s1 = (case recognitionRef s of
                  None \<Rightarrow> s
                | Some started \<Rightarrow> s\<lparr>recognitionRef := Some False, isRecording := False\<rparr>);
          s2 = (case synthRef s1 of None \<Rightarrow> s1 | Some q \<Rightarrow> s1\<lparr>synthRef := Some []\<rparr>);
          s3 = (case timerRef s2 of
                  None \<Rightarrow> s2
                | Some i \<Rightarrow> s2\<lparr>intervals := filter (\<lambda>(j, due). j \<noteq> i) (intervals s2),
                               timerRef := None\<rparr>)
      in s3\<lparr>callStatus := ended, timeouts := timeouts s3 @ [(clock s3 + 2000, Hangup)]\<rparr>)"

definition hangup_callback :: "state \<Rightarrow> state" where
  "hangup_callback s = s\<lparr>callStatus := idle, transcript := []\<rparr>"

definition handleUserSpeech :: "string \<Rightarrow> state \<Rightarrow> state" where
  "handleUserSpeech txt s =
     (let s1 = s\<lparr>transcript := []\<rparr>;
          s2 = addMessage user txt s1
      in s2\<lparr>timeouts := timeouts s2 @ [(clock s2 + 500, Reply txt)]\<rparr>)"

definition reply_callback :: "platform \<Rightarrow> string \<Rightarrow> state \<Rightarrow> state" where
  "reply_callback L txt s =
     (let response = generateResponse L (clock s) txt
      in speak response (addMessage assistant response s))"

text \<open>
  \<^verbatim>\<open>onresult\<close>: the event's results from \<^verbatim>\<open>resultIndex\<close> on, each a transcript and its
  \<^verbatim>\<open>isFinal\<close> flag. \<^verbatim>\<open>trim\<close> removes the ASCII white space at both ends.
\<close>

definition is_space :: "char \<Rightarrow> bool" where
  "is_space c = (c \<in> set [CHR '' '', CHR 0x09, CHR 0x0A, CHR 0x0B, CHR 0x0C, CHR 0x0D])"

definition trim :: "string \<Rightarrow> string" where
  "trim s = rev (dropWhile is_space (rev (dropWhile is_space s)))"

fun gather :: "(string \<times> bool) list \<Rightarrow> string \<times> string \<Rightarrow> string \<times> string" where
  "gather [] (interimTranscript, finalTranscript) = (interimTranscript, finalTranscript)"
| "gather ((t, isFinal) # rs) (interimTranscript, finalTranscript) =
     (if isFinal then gather rs (interimTranscript, finalTranscript @ t @ '' '')
      else gather rs (interimTranscript @ t, finalTranscript))"

definition onresult :: "(string \<times> bool) list \<Rightarrow> state \<Rightarrow> state" where
  "onresult results s =
     (case gather results ([], []) of
        (interimTranscript, finalTranscript) \<Rightarrow>
          if finalTranscript \<noteq> [] then handleUserSpeech (trim finalTranscript) s
          else s\<lparr>transcript := interimTranscript\<rparr>)"

subsection \<open>The event loop\<close>

text \<open>
  One handler runs to completion per event. The buttons exist only in the statuses in
  which the page renders them: Start Call when idle, End Call when connecting or active.
  \<^verbatim>\<open>onresult\<close> has no guard of its own: it runs whenever the recogniser reports, and a
  recogniser may still report after \<^verbatim>\<open>stop()\<close>. So a result can arrive in every state of
  a page that has a recogniser, whatever the status. A timer fires when it is due, and
  time never passes a due timer: \<open>Wait d\<close> is possible only up to the next due time.
  Of several timeouts that are due, the one scheduled first fires first; an interval
  timer that fires is due again 1000 ms later. \<open>Utterance_done\<close> is the speech output
  finishing the utterance at the head of its queue. An event that cannot happen in a
  state gives \<open>None\<close>.
\<close>

datatype event =
    Click_start
  | Click_end
  | Recognition_result "(string \<times> bool) list"
  | Utterance_done
  | Timeout_fires
  | Interval_fires
  | Wait nat

fun take_due :: "nat \<Rightarrow> (nat \<times> callback) list \<Rightarrow> (callback \<times> (nat \<times> callback) list) option" where
  "take_due now [] = None"
| "take_due now ((due, c) # ts) =
     (if due \<le> now then Some (c, ts)
      else case take_due now ts of
             None \<Rightarrow> None
           | Some (c', rest) \<Rightarrow> Some (c', (due, c) # rest))"

fun rearm_due :: "nat \<Rightarrow> (nat \<times> nat) list \<Rightarrow> (nat \<times> nat) list option" where
  "rearm_due now [] = None"
| "rearm_due now ((i, due) # is) =
     (if due \<le> now then Some ((i, due + 1000) # is)
      else case rearm_due now is of None \<Rightarrow> None | Some is' \<Rightarrow> Some ((i, due) # is'))"

fun run_callback :: "platform \<Rightarrow> callback \<Rightarrow> state \<Rightarrow> state" where
  "run_callback L Connect s = connect_callback s"
| "run_callback L Hangup s = hangup_callback s"
| "run_callback L (Reply txt) s = reply_callback L txt s"

definition can_wait :: "nat \<Rightarrow> state \<Rightarrow> bool" where
  "can_wait d s =
     (list_all (\<lambda>(due, c). clock s + d \<le> due) (timeouts s) \<and>
      list_all (\<lambda>(i, due). clock s + d \<le> due) (intervals s))"

fun step :: "platform \<Rightarrow> event \<Rightarrow> state \<Rightarrow> state option" where
  "step L Click_start s = (if callStatus s = idle then Some (startCall s) else None)"
| "step L Click_end s =
     (if callStatus s = connecting \<or> callStatus s = active then Some (endCall s) else None)"
| "step L (Recognition_result results) s =
     (if recognitionRef s \<noteq> None then Some (onresult results s) else None)"
| "step L Utterance_done s =
     (case synthRef s of
        Some (u # q) \<Rightarrow> Some (s\<lparr>synthRef := Some q\<rparr>)
      | _ \<Rightarrow> None)"
| "step L Timeout_fires s =
     (case take_due (clock s) (timeouts s) of
        None \<Rightarrow> None
      | Some (c, rest) \<Rightarrow> Some (run_callback L c (s\<lparr>timeouts := rest\<rparr>)))"
| "step L Interval_fires s =
     (case rearm_due (clock s) (intervals s) of
        None \<Rightarrow> None
      | Some is' \<Rightarrow> Some (s\<lparr>intervals := is', callDuration := callDuration s + 1\<rparr>))"
| "step L (Wait d) s = (if can_wait d s then Some (s\<lparr>clock := clock s + d\<rparr>) else None)"

fun run :: "platform \<Rightarrow> event list \<Rightarrow> state \<Rightarrow> state option" where
  "run L [] s = Some s"
| "run L (e # es) s = (case step L e s of None \<Rightarrow> None | Some s' \<Rightarrow> run L es s')"

section \<open>Notions used to state the properties\<close>

subsection \<open>Reading a rendered duration back\<close>

definition is_digit :: "char \<Rightarrow> bool" where
  "is_digit c = (48 \<le> (of_char c :: nat) \<and> (of_char c :: nat) \<le> 57)"

definition parse_nat :: "string \<Rightarrow> nat" where
  "parse_nat s = foldl (\<lambda>a c. 10 * a + ((of_char c :: nat) - 48)) 0 s"

definition minutes_field :: "string \<Rightarrow> string" where
  "minutes_field out = takeWhile (\<lambda>c. c \<noteq> CHR '':'') out"

definition seconds_field :: "string \<Rightarrow> string" where
  "seconds_field out = tl (dropWhile (\<lambda>c. c \<noteq> CHR '':'') out)"

subsection \<open>The rules as an ordered table\<close>

text \<open>
  The order the specification names: greeting, well-being, appointment, weather, help,
  thanks, farewell, identity, time, date; the fallback is the reply when no rule applies.
  Each rule has the keywords that the source tests for it. \<open>first_match\<close> is the table
  reading of the matcher, to be compared with \<open>generateResponse\<close>.
\<close>

definition rule_table :: "(string list \<times> (platform \<Rightarrow> nat \<Rightarrow> string)) list" where
  "rule_table =
     [([''hello'', ''hi''], \<lambda>L now. greeting_reply),
      ([''how are you''], \<lambda>L now. wellbeing_reply),
      ([''appointment'', ''schedule''], \<lambda>L now. appointment_reply),
      ([''weather''], \<lambda>L now. weather_reply),
      ([''help''], \<lambda>L now. help_reply),
      ([''thank''], \<lambda>L now. thanks_reply),
      ([''bye'', ''goodbye''], \<lambda>L now. farewell_reply),
      ([''name''], \<lambda>L now. identity_reply),
      ([''time''], time_reply),
      ([''date''], date_reply)]"

definition matches :: "string \<Rightarrow> string list \<times> (platform \<Rightarrow> nat \<Rightarrow> string) \<Rightarrow> bool" where
  "matches t r = list_ex (includes_str (toLowerCase t)) (fst r)"

definition first_match :: "platform \<Rightarrow> nat \<Rightarrow> string \<Rightarrow> string" where
  "first_match L now t =
     (case find (matches t) rule_table of
        None \<Rightarrow> fallback_reply
      | Some r \<Rightarrow> snd r L now)"

subsection \<open>A platform to evaluate on\<close>

text \<open>
  Locale formatting belongs to the browser. The properties of the matcher are proved
  for every \<open>platform\<close>; where a concrete run is evaluated, this one is used: the time of
  day on a 24-hour clock (hours, minutes, seconds, two digits each) and the number of
  the day, both counted from clock reading 0.
\<close>

definition clock_24h :: "nat \<Rightarrow> string" where
  "clock_24h ms =
     padStart 2 ''0'' (toString (ms div 3600000 mod 24)) @ '':'' @
     padStart 2 ''0'' (toString (ms div 60000 mod 60)) @ '':'' @
     padStart 2 ''0'' (toString (ms div 1000 mod 60))"

definition day_number :: "nat \<Rightarrow> string" where
  "day_number ms = ''day '' @ toString (ms div 86400000)"

definition sample_platform :: platform where
  "sample_platform = \<lparr>toLocaleTimeString = clock_24h, toLocaleDateString = day_number\<rparr>"

subsection \<open>Pending speech, pending callbacks, calm runs\<close>

definition pending_speech :: "state \<Rightarrow> nat" where
  "pending_speech s = (case synthRef s of None \<Rightarrow> 0 | Some q \<Rightarrow> length q)"

definition pending :: "callback \<Rightarrow> state \<Rightarrow> nat" where
  "pending c s = count_list (map snd (timeouts s)) c"

text \<open>
  A run in which the End Call button is pressed only in an active call, never while the
  call is still connecting.
\<close>

fun calm :: "platform \<Rightarrow> event list \<Rightarrow> state \<Rightarrow> bool" where
  "calm L [] s = True"
| "calm L (e # es) s =
     ((e \<noteq> Click_end \<or> callStatus s = active) \<and>
      (case step L e s of None \<Rightarrow> True | Some s' \<Rightarrow> calm L es s'))"

text \<open>
  What holds in every state of a calm run: a connect callback is pending exactly while
  connecting, a hang-up callback exactly while ended, one of each at most.
\<close>

definition calm_inv :: "state \<Rightarrow> bool" where
  "calm_inv s =
     (pending Connect s = (if callStatus s = connecting then 1 else 0) \<and>
      pending Hangup s = (if callStatus s = ended then 1 else 0))"

text \<open>The edges of the documented life cycle.\<close>

definition documented_edge :: "CallStatus \<Rightarrow> CallStatus \<Rightarrow> bool" where
  "documented_edge a b =
     ((a, b) \<in> set [(idle, connecting), (connecting, active), (active, ended),
                    (connecting, ended), (ended, idle)])"

subsection \<open>Three runs from the initial state\<close>

text \<open>
  A call in which the caller says hello, hangs up 100 ms later and 400 ms go by: the
  reply to the utterance is then due.
\<close>

definition hangup_before_reply :: "event list" where
  "hangup_before_reply =
     [Click_start, Wait 1500, Timeout_fires, Wait 500,
      Recognition_result [(''hello'', True)], Wait 100, Click_end, Wait 400]"

text \<open>End Call pressed 100 ms after Start Call; 1400 ms later the connect delay is over.\<close>

definition hangup_while_connecting :: "event list" where
  "hangup_while_connecting = [Click_start, Wait 100, Click_end, Wait 1400]"

text \<open>
  A caller who presses End Call right after Start Call, and again at 1500 ms in the call
  that becomes active all the same, then presses Start Call at 2100 ms and, when the
  second hang-up callback has set the status back to idle at 3500 ms, once more at
  3550 ms. \<open>second_call\<close> ends at 3700 ms, 100 ms into the call made active by the connect
  callback of the second Start Call, with the connect callback of the third still
  pending. \<open>second_call_ended\<close> goes on: the recogniser reports the interim text "foo",
  the caller hangs up at 4000 ms, and at 5050 ms the pending connect callback is due.
\<close>

definition second_call :: "event list" where
  "second_call =
     [Click_start, Click_end, Wait 1500, Timeout_fires, Click_end, Wait 500, Timeout_fires,
      Wait 100, Click_start, Wait 1400, Timeout_fires, Wait 50, Click_start, Wait 50,
      Timeout_fires, Wait 100]"

definition second_call_ended :: "event list" where
  "second_call_ended =
     second_call @ [Recognition_result [(''foo'', False)], Wait 300, Click_end, Wait 1050]"

text \<open>
  The state 1500 ms after Start Call, the connect callback due, and the state once the
  callback has run.
\<close>

definition about_to_connect :: state where
  "about_to_connect =
     \<lparr>callStatus = connecting, messages = [], isRecording = False, transcript = [],
      callDuration = 0, recognitionRef = Some False, synthRef = Some [], timerRef = None,
      timeouts = [(1500, Connect)], intervals = [], next_id = 1, clock = 1500\<rparr>"

definition in_call :: state where
  "in_call = connect_callback (about_to_connect\<lparr>timeouts := []\<rparr>)"

section \<open>Duration formatting\<close>

lemma of_char_digit_char: "d < 10 \<Longrightarrow> (of_char (digit_char d) :: nat) = 48 + d"
  by (simp add: digit_char_def)

lemma is_digit_digit_char: "d < 10 \<Longrightarrow> is_digit (digit_char d)"
  by (simp add: is_digit_def of_char_digit_char)

lemma toString_digits: "list_all is_digit (toString n)"
  by (induction n rule: toString.induct) (subst toString.simps, simp add: is_digit_digit_char)

lemma parse_nat_snoc: "parse_nat (s @ [c]) = 10 * parse_nat s + ((of_char c :: nat) - 48)"
  by (simp add: parse_nat_def)

lemma parse_nat_toString: "parse_nat (toString n) = n"
proof (induction n rule: toString.induct)
  case (1 n)
  show ?case
  proof (cases "n < 10")
    case True
    then show ?thesis
      by (subst toString.simps) (simp add: parse_nat_def of_char_digit_char)
  next
    case False
    with 1 show ?thesis
      by (subst toString.simps) (simp add: parse_nat_snoc of_char_digit_char)
  qed
qed

lemma length_toString_pos: "0 < length (toString n)"
  by (subst toString.simps) simp

lemma length_toString_small: "n < 100 \<Longrightarrow> length (toString n) \<le> 2"
  by (subst toString.simps, subst toString.simps) simp

lemma parse_nat_zeros: "parse_nat (replicate k CHR ''0'' @ s) = parse_nat s"
proof -
  have "foldl (\<lambda>a c. 10 * a + ((of_char c :: nat) - 48)) 0 (replicate k CHR ''0'') = 0"
    by (induction k) simp_all
  then show ?thesis by (simp add: parse_nat_def)
qed

lemma padStart_zero: "padStart 2 ''0'' s = replicate (2 - length s) CHR ''0'' @ s"
  by (simp add: padStart_def)

lemma pad_digits: "list_all is_digit s \<Longrightarrow> list_all is_digit (padStart 2 ''0'' s)"
  by (auto simp: padStart_zero list_all_iff is_digit_def)

lemma digits_no_colon: "list_all is_digit s \<Longrightarrow> \<forall>c\<in>set s. c \<noteq> CHR '':''"
  by (auto simp: list_all_iff is_digit_def)

lemma fields_of:
  assumes "list_all is_digit m"
  shows "minutes_field (m @ '':'' @ t) = m" and "seconds_field (m @ '':'' @ t) = t"
  using digits_no_colon [OF assms] by (simp_all add: minutes_field_def seconds_field_def)

text \<open>
  Claim C6. For every number of seconds \<open>s\<close> below \<open>2 ^ 53\<close> (the range in which the
  natural numbers are the numbers of the source), \<open>formatDuration s\<close> is a minutes field,
  a colon and a seconds field, all digits; read back as numbers the fields are
  \<open>s div 60\<close> and \<open>s mod 60\<close>; the seconds field has exactly two characters and the minutes
  field has two, or as many as \<open>s div 60\<close> has digits when that is more (minutes are not
  folded into hours). 0 gives 00:00, 65 gives 01:05 and 3661 gives 61:01.
\<close>

theorem formatDuration_fields:
  "s < 2 ^ 53 \<Longrightarrow>
   formatDuration s =
     minutes_field (formatDuration s) @ '':'' @ seconds_field (formatDuration s)
   \<and> list_all is_digit (minutes_field (formatDuration s))
   \<and> list_all is_digit (seconds_field (formatDuration s))
   \<and> parse_nat (minutes_field (formatDuration s)) = s div 60
   \<and> parse_nat (seconds_field (formatDuration s)) = s mod 60
   \<and> length (seconds_field (formatDuration s)) = 2
   \<and> length (minutes_field (formatDuration s)) = max 2 (length (toString (s div 60)))
   \<and> formatDuration 0 = ''00:00'' \<and> formatDuration 65 = ''01:05''
   \<and> formatDuration 3661 = ''61:01''"
proof -
  define m where "m = padStart 2 ''0'' (toString (s div 60))"
  define t where "t = padStart 2 ''0'' (toString (s mod 60))"
  have out: "formatDuration s = m @ '':'' @ t"
    by (simp add: formatDuration_def m_def t_def)
  have dm: "list_all is_digit m" and dt: "list_all is_digit t"
    by (simp_all add: m_def t_def pad_digits toString_digits)
  have mf: "minutes_field (formatDuration s) = m"
    and sf: "seconds_field (formatDuration s) = t"
    using fields_of [OF dm, of t] by (simp_all add: out)
  have pm: "parse_nat m = s div 60" and pt: "parse_nat t = s mod 60"
    by (simp_all add: m_def t_def padStart_zero parse_nat_zeros parse_nat_toString)
  have "s mod 60 < 100" by (rule less_trans [of _ 60]) simp_all
  from length_toString_small [OF this] length_toString_pos [of "s mod 60"]
  have lt: "length t = 2" by (simp add: t_def padStart_zero)
  have lm: "length m = max 2 (length (toString (s div 60)))"
    by (simp add: m_def padStart_zero)
  have ex: "formatDuration 0 = ''00:00''" "formatDuration 65 = ''01:05''"
    "formatDuration 3661 = ''61:01''"
    by code_simp+
  show ?thesis
    unfolding mf sf using out dm dt pm pt lt lm ex by simp
qed

theorem formatDuration_fields_witness:
  "(3661::nat) < 2 ^ 53
   \<and> formatDuration 3661 = ''61:01''
   \<and> parse_nat (minutes_field (formatDuration 3661)) = 61
   \<and> parse_nat (seconds_field (formatDuration 3661)) = 1
   \<and> length (seconds_field (formatDuration 3661)) = 2"
proof -
  have h: "(3661::nat) < 2 ^ 53" by simp
  note t = formatDuration_fields [OF h]
  from t have "parse_nat (minutes_field (formatDuration 3661)) = 3661 div 60"
    and "parse_nat (seconds_field (formatDuration 3661)) = 3661 mod 60"
    and l: "length (seconds_field (formatDuration 3661)) = 2"
    and e: "formatDuration 3661 = ''61:01''"
    by blast+
  then have m: "parse_nat (minutes_field (formatDuration 3661)) = 61"
    and sc: "parse_nat (seconds_field (formatDuration 3661)) = 1"
    by simp_all
  show ?thesis by (intro conjI) (rule h e m sc l)+
qed

section \<open>The rule matcher\<close>

lemma includes_str_iff: "includes_str s k \<longleftrightarrow> (\<exists>p q. s = p @ k @ q)"
proof (induction s)
  case Nil
  then show ?case by auto
next
  case (Cons c cs)
  show ?case
  proof
    assume "includes_str (c # cs) k"
    then consider "prefix k (c # cs)" | "includes_str cs k" by auto
    then show "\<exists>p q. c # cs = p @ k @ q"
    proof cases
      case 1
      then obtain q where "c # cs = k @ q" by (auto simp: prefix_def)
      then have "c # cs = [] @ k @ q" by simp
      then show ?thesis by blast
    next
      case 2
      with Cons.IH obtain p q where "cs = p @ k @ q" by blast
      then have "c # cs = (c # p) @ k @ q" by simp
      then show ?thesis by blast
    qed
  next
    assume "\<exists>p q. c # cs = p @ k @ q"
    then obtain p q where pq: "c # cs = p @ k @ q" by blast
    show "includes_str (c # cs) k"
    proof (cases p)
      case Nil
      with pq have "prefix k (c # cs)" by (simp add: prefix_def)
      then show ?thesis by simp
    next
      case (Cons a p')
      with pq have "cs = p' @ k @ q" by simp
      with Cons.IH have "includes_str cs k" by blast
      then show ?thesis by simp
    qed
  qed
qed

lemma find_first:
  "i < length xs \<Longrightarrow> P (xs ! i) \<Longrightarrow> \<not> list_ex P (take i xs) \<Longrightarrow> find P xs = Some (xs ! i)"
proof (induction xs arbitrary: i)
  case Nil
  then show ?case by simp
next
  case (Cons x xs)
  then show ?case by (cases i) auto
qed

lemma find_none: "\<not> list_ex P xs \<Longrightarrow> find P xs = None"
  by (induction xs) auto

lemma generateResponse_table: "generateResponse L now t = first_match L now t"
  by (simp add: generateResponse_def first_match_def rule_table_def matches_def Let_def)

lemma toString_digit: "n < 10 \<Longrightarrow> toString n = [digit_char n]"
  by (subst toString.simps) simp

lemma digit_char_0: "digit_char 0 = CHR ''0''"
  and digit_char_1: "digit_char (Suc 0) = CHR ''1''"
  by code_simp+

lemma clock_24h_0: "clock_24h 0 = ''00:00:00''"
  by (simp add: clock_24h_def padStart_def toString_digit digit_char_0)

lemma clock_24h_1000: "clock_24h 1000 = ''00:00:01''"
  by (simp add: clock_24h_def padStart_def toString_digit digit_char_0 digit_char_1)

lemma reply_hi_there: "generateResponse L now ''Hi there'' = greeting_reply"
  by code_simp

lemma reply_what_time: "generateResponse L now ''what time is it'' = time_reply L now"
  by code_simp

text \<open>One rule of the chain at a time: a reply that does not read the clock stays so.\<close>

lemma chain_step:
  "(\<forall>L n. f L n = tm L n) \<or> (\<forall>L n. f L n = dt L n) \<or> (\<exists>r. \<forall>L n. f L n = r) \<Longrightarrow>
   (\<forall>L n. (if c then r0 else f L n) = tm L n)
   \<or> (\<forall>L n. (if c then r0 else f L n) = dt L n)
   \<or> (\<exists>r. \<forall>L n. (if c then r0 else f L n) = (r::string))"
  by (cases c) auto

lemma chain_base:
  "(\<forall>L n. (if c then tm L n else if d then dt L n else r0) = tm L n)
   \<or> (\<forall>L n. (if c then tm L n else if d then dt L n else r0) = dt L n)
   \<or> (\<exists>r. \<forall>L n. (if c then tm L n else if d then dt L n else r0) = (r::string))"
  by (cases c; cases d) auto

lemma generateResponse_clock:
  "(\<forall>L now. generateResponse L now t = time_reply L now)
   \<or> (\<forall>L now. generateResponse L now t = date_reply L now)
   \<or> (\<exists>r. \<forall>L now. generateResponse L now t = r)"
  unfolding generateResponse_def Let_def
  by (intro chain_step chain_base)

text \<open>
  Claim C3, as amended. At one reading of the clock and one locale formatting, the
  reply is a function of the text and is the same for every text with the same
  lower-casing (every case variant); and a reply that is not the time reply or the date
  reply is the same at every clock reading and formatting. The time and date replies
  embed the clock, so they change from one evaluation to the next.
\<close>

theorem generateResponse_case_insensitive:
  "(toLowerCase t = toLowerCase t' \<longrightarrow> generateResponse L now t = generateResponse L now t')
   \<and> (generateResponse L now t = time_reply L now
      \<or> generateResponse L now t = date_reply L now
      \<or> (\<forall>L' now'. generateResponse L' now' t = generateResponse L now t))"
proof -
  have a: "generateResponse L now t = generateResponse L now t'"
    if "toLowerCase t = toLowerCase t'"
    using that by (simp only: generateResponse_def)
  have b: "generateResponse L now t = time_reply L now
      \<or> generateResponse L now t = date_reply L now
      \<or> (\<forall>L' now'. generateResponse L' now' t = generateResponse L now t)"
    using generateResponse_clock [of t] by metis
  from a b show ?thesis by blast
qed

theorem generateResponse_case_insensitive_witness:
  "toLowerCase ''Hello'' = toLowerCase ''hELLO''
   \<and> generateResponse sample_platform 0 ''Hello'' = generateResponse sample_platform 0 ''hELLO''"
proof -
  have h: "toLowerCase ''Hello'' = toLowerCase ''hELLO''" by code_simp
  note c = generateResponse_case_insensitive
             [where t = "''Hello''" and t' = "''hELLO''" and L = sample_platform and now = 0]
  show ?thesis by (rule conjI [OF h mp [OF conjunct1 [OF c] h]])
qed

text \<open>
  Claim C3, as stated, fails: the same text evaluated one second later gets another
  reply.
\<close>

theorem generateResponse_not_pure:
  "generateResponse sample_platform 0 ''what time is it''
     \<noteq> generateResponse sample_platform 1000 ''what time is it''"
  by (simp add: reply_what_time time_reply_def sample_platform_def clock_24h_0 clock_24h_1000)

text \<open>
  Claim C4. \<open>generateResponse\<close> is the first match over the table of rules in the order
  greeting, well-being, appointment, weather, help, thanks, farewell, identity, time,
  date: the reply is that of rule \<open>i\<close> whenever rule \<open>i\<close> matches the lower-cased input and
  no rule before it does, whatever later rules match as well; it is the fallback
  when no rule matches; and a text with both "thank" and "bye" that reaches the thanks
  rule gets the thanks reply.
\<close>

theorem generateResponse_priority:
  "generateResponse L now t = first_match L now t
   \<and> (i < length rule_table \<and> matches t (rule_table ! i)
        \<and> \<not> list_ex (matches t) (take i rule_table)
      \<longrightarrow> generateResponse L now t = snd (rule_table ! i) L now)
   \<and> (\<not> list_ex (matches t) rule_table \<longrightarrow> generateResponse L now t = fallback_reply)
   \<and> (includes_str (toLowerCase t) ''thank'' \<and> includes_str (toLowerCase t) ''bye''
        \<and> \<not> list_ex (matches t) (take 5 rule_table)
      \<longrightarrow> generateResponse L now t = thanks_reply)"
proof -
  have a: "generateResponse L now t = snd (rule_table ! i) L now"
    if "i < length rule_table" "matches t (rule_table ! i)"
      "\<not> list_ex (matches t) (take i rule_table)"
    using find_first [OF that] by (simp add: generateResponse_table first_match_def)
  have b: "generateResponse L now t = fallback_reply"
    if "\<not> list_ex (matches t) rule_table"
    using find_none [OF that] by (simp add: generateResponse_table first_match_def)
  have c: "generateResponse L now t = thanks_reply"
    if "includes_str (toLowerCase t) ''thank''"
      "\<not> list_ex (matches t) (take 5 rule_table)"
    using that by (simp add: generateResponse_def Let_def rule_table_def matches_def)
  from a b c show ?thesis by (simp add: generateResponse_table)
qed

theorem generateResponse_priority_witness:
  "5 < length rule_table \<and> matches ''Thanks, bye!'' (rule_table ! 5)
   \<and> \<not> list_ex (matches ''Thanks, bye!'') (take 5 rule_table)
   \<and> includes_str (toLowerCase ''Thanks, bye!'') ''thank''
   \<and> includes_str (toLowerCase ''Thanks, bye!'') ''bye''
   \<and> generateResponse sample_platform 0 ''Thanks, bye!'' = thanks_reply
   \<and> \<not> list_ex (matches ''I see'') rule_table
   \<and> generateResponse sample_platform 0 ''I see'' = fallback_reply"
proof -
  have h1: "5 < length rule_table" by (simp add: rule_table_def)
  have h2: "matches ''Thanks, bye!'' (rule_table ! 5)" by code_simp
  have h3: "\<not> list_ex (matches ''Thanks, bye!'') (take 5 rule_table)" by code_simp
  have h4: "includes_str (toLowerCase ''Thanks, bye!'') ''thank''" by code_simp
  have h5: "includes_str (toLowerCase ''Thanks, bye!'') ''bye''" by code_simp
  have h6: "\<not> list_ex (matches ''I see'') rule_table" by code_simp
  note p1 = generateResponse_priority
              [where t = "''Thanks, bye!''" and i = 5 and L = sample_platform and now = 0]
  note p2 = generateResponse_priority
              [where t = "''I see''" and i = 0 and L = sample_platform and now = 0]
  have r1: "generateResponse sample_platform 0 ''Thanks, bye!'' = thanks_reply"
    by (rule mp [OF conjunct2 [OF conjunct2 [OF conjunct2 [OF p1]]] conjI [OF h4 conjI [OF h5 h3]]])
  have r2: "generateResponse sample_platform 0 ''I see'' = fallback_reply"
    by (rule mp [OF conjunct1 [OF conjunct2 [OF conjunct2 [OF p2]]] h6])
  show ?thesis
    by (intro conjI) (rule h1 h2 h3 h4 h5 h6 r1 r2)+
qed

text \<open>
  Claim C5. The reply to "Hi there" is the greeting reply, character for character,
  and the reply to "what time is it" is the sentence around the platform's rendering
  of the current time.
\<close>

theorem generateResponse_scenarios:
  "generateResponse L now ''Hi there''
     = ''Hello! It's great to hear from you. What can I assist you with?''
   \<and> generateResponse L now ''what time is it''
     = ''The current time is '' @ toLocaleTimeString L now @ ''.''"
  by (simp add: reply_hi_there reply_what_time greeting_reply_def time_reply_def)

text \<open>
  Claim C10. Matching is containment of the keyword in the lower-cased input, at any
  position: whenever the lower-cased input is some text, then "hi", then some text, the
  reply is the greeting reply, not the fallback.
\<close>

theorem generateResponse_hi_anywhere:
  "toLowerCase t = p @ ''hi'' @ q \<Longrightarrow>
     generateResponse L now t
       = ''Hello! It's great to hear from you. What can I assist you with?''
     \<and> generateResponse L now t \<noteq> fallback_reply"
proof -
  assume "toLowerCase t = p @ ''hi'' @ q"
  then have "includes_str (toLowerCase t) ''hi''"
    unfolding includes_str_iff by blast
  then have "generateResponse L now t = greeting_reply"
    by (simp add: generateResponse_def Let_def)
  then show ?thesis by (simp add: greeting_reply_def fallback_reply_def)
qed

theorem generateResponse_hi_anywhere_witness:
  "toLowerCase ''Nothing'' = ''not'' @ ''hi'' @ ''ng''
   \<and> generateResponse sample_platform 0 ''Nothing''
       = ''Hello! It's great to hear from you. What can I assist you with?''
   \<and> generateResponse sample_platform 0 ''Nothing'' \<noteq> fallback_reply"
proof -
  have h: "toLowerCase ''Nothing'' = ''not'' @ ''hi'' @ ''ng''" by code_simp
  show ?thesis
    by (rule conjI [OF h generateResponse_hi_anywhere [OF h, of sample_platform 0]])
qed

section \<open>The call session\<close>

subsection \<open>What each handler does to each cell\<close>

lemma speak_fields:
  "callStatus (speak u s) = callStatus s"
  "messages (speak u s) = messages s"
  "isRecording (speak u s) = isRecording s"
  "transcript (speak u s) = transcript s"
  "callDuration (speak u s) = callDuration s"
  "recognitionRef (speak u s) = recognitionRef s"
  "synthRef (speak u s) = map_option (\<lambda>q. [\<lparr>utterance_text = u\<rparr>]) (synthRef s)"
  "timerRef (speak u s) = timerRef s"
  "timeouts (speak u s) = timeouts s"
  "intervals (speak u s) = intervals s"
  "clock (speak u s) = clock s"
  by (simp_all add: speak_def split: option.splits)

lemma connect_fields:
  "callStatus (connect_callback s) = active"
  "messages (connect_callback s)
     = [\<lparr>role = assistant, content = greeting, timestamp = clock s\<rparr>]"
  "transcript (connect_callback s) = transcript s"
  "callDuration (connect_callback s) = 0"
  "recognitionRef (connect_callback s) = map_option (\<lambda>b. True) (recognitionRef s)"
  "synthRef (connect_callback s)
     = map_option (\<lambda>q. [\<lparr>utterance_text = greeting\<rparr>]) (synthRef s)"
  "timerRef (connect_callback s) = Some (next_id s)"
  "timeouts (connect_callback s) = timeouts s"
  "intervals (connect_callback s) = intervals s @ [(next_id s, clock s + 1000)]"
  "clock (connect_callback s) = clock s"
  by (simp_all add: connect_callback_def addMessage_def speak_fields Let_def
      split: option.splits)

lemma endCall_fields:
  "callStatus (endCall s) = ended"
  "messages (endCall s) = messages s"
  "isRecording (endCall s) = (if recognitionRef s = None then isRecording s else False)"
  "transcript (endCall s) = transcript s"
  "callDuration (endCall s) = callDuration s"
  "recognitionRef (endCall s) = map_option (\<lambda>b. False) (recognitionRef s)"
  "synthRef (endCall s) = map_option (\<lambda>q. []) (synthRef s)"
  "timerRef (endCall s) = None"
  "timeouts (endCall s) = timeouts s @ [(clock s + 2000, Hangup)]"
  "intervals (endCall s)
     = (case timerRef s of
          None \<Rightarrow> intervals s
        | Some i \<Rightarrow> filter (\<lambda>(j, due). j \<noteq> i) (intervals s))"
  "clock (endCall s) = clock s"
  by (auto simp: endCall_def Let_def split: option.splits)

lemma reply_fields:
  "callStatus (reply_callback L u s) = callStatus s"
  "messages (reply_callback L u s)
     = messages s @ [\<lparr>role = assistant, content = generateResponse L (clock s) u,
                       timestamp = clock s\<rparr>]"
  "transcript (reply_callback L u s) = transcript s"
  "recognitionRef (reply_callback L u s) = recognitionRef s"
  "synthRef (reply_callback L u s)
     = map_option (\<lambda>q. [\<lparr>utterance_text = generateResponse L (clock s) u\<rparr>]) (synthRef s)"
  "timeouts (reply_callback L u s) = timeouts s"
  "clock (reply_callback L u s) = clock s"
  by (simp_all add: reply_callback_def speak_fields Let_def) (simp_all add: addMessage_def)

lemma onresult_fields:
  "callStatus (onresult rs s) = callStatus s"
  "recognitionRef (onresult rs s) = recognitionRef s"
  "synthRef (onresult rs s) = synthRef s"
  "pending Connect (onresult rs s) = pending Connect s"
  "pending Hangup (onresult rs s) = pending Hangup s"
  by (simp_all add: onresult_def handleUserSpeech_def addMessage_def pending_def Let_def
      split: prod.splits)

subsection \<open>Firing a timeout\<close>

lemma take_due_count:
  "take_due now ts = Some (c, rest) \<Longrightarrow>
     count_list (map snd ts) x = count_list (map snd rest) x + (if x = c then 1 else 0)"
proof (induction ts arbitrary: rest)
  case Nil
  then show ?case by simp
next
  case (Cons a ts)
  obtain due c0 where a: "a = (due, c0)" by (cases a)
  show ?case
  proof (cases "due \<le> now")
    case True
    with Cons.prems a show ?thesis by auto
  next
    case False
    with Cons.prems a obtain rest' where r: "take_due now ts = Some (c, rest')"
      and rest: "rest = (due, c0) # rest'"
      by (auto split: option.splits)
    from Cons.IH [OF r] rest a show ?thesis by simp
  qed
qed

lemma fired:
  assumes "step L Timeout_fires s = Some s'"
  shows "\<exists>c rest. s' = run_callback L c (s\<lparr>timeouts := rest\<rparr>)
           \<and> pending c s = Suc (pending c (s\<lparr>timeouts := rest\<rparr>))
           \<and> (\<forall>x. x \<noteq> c \<longrightarrow> pending x (s\<lparr>timeouts := rest\<rparr>) = pending x s)"
proof -
  from assms obtain c rest where t: "take_due (clock s) (timeouts s) = Some (c, rest)"
    and s': "s' = run_callback L c (s\<lparr>timeouts := rest\<rparr>)"
    by (auto split: option.splits)
  from take_due_count [OF t] have "pending c s = Suc (pending c (s\<lparr>timeouts := rest\<rparr>))"
    and "\<forall>x. x \<noteq> c \<longrightarrow> pending x (s\<lparr>timeouts := rest\<rparr>) = pending x s"
    by (simp_all add: pending_def)
  with s' show ?thesis by blast
qed

subsection \<open>Calm runs keep the life cycle\<close>

lemma calm_inv_init: "calm_inv (init r y)"
  by (simp add: calm_inv_def init_def pending_def)

lemma calm_inv_step:
  assumes inv: "calm_inv s" and st: "step L e s = Some s'"
    and calm: "e \<noteq> Click_end \<or> callStatus s = active"
  shows "calm_inv s' \<and> (callStatus s' = callStatus s
                          \<or> documented_edge (callStatus s) (callStatus s'))"
proof (cases e)
  case Click_start
  with st have "callStatus s = idle" and "s' = startCall s" by (auto split: if_splits)
  with inv show ?thesis
    by (simp add: calm_inv_def pending_def startCall_def documented_edge_def)
next
  case Click_end
  with st calm have "callStatus s = active" and "s' = endCall s" by (auto split: if_splits)
  with inv show ?thesis
    by (simp add: calm_inv_def pending_def endCall_fields documented_edge_def
        split: option.splits)
next
  case (Recognition_result rs)
  with st have "s' = onresult rs s" by (auto split: if_splits)
  with inv show ?thesis by (simp add: calm_inv_def onresult_fields)
next
  case Utterance_done
  with st inv show ?thesis
    by (auto simp: calm_inv_def pending_def split: option.splits list.splits)
next
  case Timeout_fires
  with st have "step L Timeout_fires s = Some s'" by simp
  from fired [OF this] obtain c rest
    where s': "s' = run_callback L c (s\<lparr>timeouts := rest\<rparr>)"
      and p: "pending c s = Suc (pending c (s\<lparr>timeouts := rest\<rparr>))"
      and q: "\<And>x. x \<noteq> c \<Longrightarrow> pending x (s\<lparr>timeouts := rest\<rparr>) = pending x s"
    by blast
  show ?thesis
  proof (cases c)
    case Connect
    with inv p have cs: "callStatus s = connecting" and z: "pending Connect (s\<lparr>timeouts := rest\<rparr>) = 0"
      by (auto simp: calm_inv_def split: if_splits)
    from q [of Hangup] Connect have h: "pending Hangup (s\<lparr>timeouts := rest\<rparr>) = pending Hangup s"
      by simp
    from inv cs z h show ?thesis unfolding s' Connect
      by (simp add: calm_inv_def pending_def connect_fields documented_edge_def
          split: option.splits)
  next
    case Hangup
    with inv p have cs: "callStatus s = ended" and z: "pending Hangup (s\<lparr>timeouts := rest\<rparr>) = 0"
      by (auto simp: calm_inv_def split: if_splits)
    from q [of Connect] Hangup have h: "pending Connect (s\<lparr>timeouts := rest\<rparr>) = pending Connect s"
      by simp
    from inv cs z h show ?thesis unfolding s' Hangup
      by (simp add: calm_inv_def pending_def hangup_callback_def documented_edge_def)
  next
    case (Reply u)
    with q [of Connect] q [of Hangup]
    have h: "pending Connect (s\<lparr>timeouts := rest\<rparr>) = pending Connect s"
      "pending Hangup (s\<lparr>timeouts := rest\<rparr>) = pending Hangup s" by simp_all
    from inv h show ?thesis unfolding s' Reply
      by (simp add: calm_inv_def pending_def reply_fields)
  qed
next
  case Interval_fires
  with st inv show ?thesis
    by (auto simp: calm_inv_def pending_def split: option.splits)
next
  case (Wait d)
  with st inv show ?thesis
    by (auto simp: calm_inv_def pending_def split: if_splits)
qed

lemma calm_inv_run:
  "calm_inv s \<Longrightarrow> calm L es s \<Longrightarrow> run L es s = Some s' \<Longrightarrow> calm_inv s'"
proof (induction es arbitrary: s)
  case Nil
  then show ?case by simp
next
  case (Cons e es)
  from Cons.prems(3) obtain s1 where s1: "step L e s = Some s1" and r: "run L es s1 = Some s'"
    by (auto split: option.splits)
  from Cons.prems(2) s1 have c: "e \<noteq> Click_end \<or> callStatus s = active"
    and c1: "calm L es s1"
    by auto
  from calm_inv_step [OF Cons.prems(1) s1 c] have "calm_inv s1" by simp
  from Cons.IH [OF this c1 r] show ?case .
qed

text \<open>
  In a calm run every change of status is along a documented edge: the undocumented
  ones need End Call pressed while connecting.
\<close>

lemma calm_run_edges:
  assumes "calm L es (init r y)" and "run L es (init r y) = Some s"
    and "step L e s = Some s'" and "e \<noteq> Click_end \<or> callStatus s = active"
  shows "callStatus s' = callStatus s \<or> documented_edge (callStatus s) (callStatus s')"
  using calm_inv_step [OF calm_inv_run [OF calm_inv_init assms(1,2)] assms(3,4)] by simp

subsection \<open>The step that makes the session active\<close>

lemma becomes_active:
  assumes st: "step L e s = Some s'" and na: "callStatus s \<noteq> active"
    and a: "callStatus s' = active"
  obtains rest where "s' = connect_callback (s\<lparr>timeouts := rest\<rparr>)"
    and "0 < pending Connect s"
proof (cases e)
  case Click_start
  with st a show ?thesis by (auto simp: startCall_def split: if_splits)
next
  case Click_end
  with st a show ?thesis by (auto simp: endCall_fields split: if_splits)
next
  case (Recognition_result rs)
  with st na a show ?thesis by (auto simp: onresult_fields split: if_splits)
next
  case Utterance_done
  with st na a show ?thesis by (auto split: option.splits list.splits)
next
  case Timeout_fires
  with st have "step L Timeout_fires s = Some s'" by simp
  from fired [OF this] obtain c rest
    where s': "s' = run_callback L c (s\<lparr>timeouts := rest\<rparr>)"
      and p: "pending c s = Suc (pending c (s\<lparr>timeouts := rest\<rparr>))"
    by blast
  show ?thesis
  proof (cases c)
    case Connect
    with s' p that show ?thesis by simp
  next
    case Hangup
    with s' a show ?thesis by (simp add: hangup_callback_def)
  next
    case (Reply u)
    with s' na a show ?thesis by (simp add: reply_fields)
  qed
next
  case Interval_fires
  with st na a show ?thesis by (auto split: option.splits)
next
  case (Wait d)
  with st na a show ?thesis by (auto split: if_splits)
qed

subsection \<open>Becoming active\<close>

lemmas handlers =
  init_def startCall_def endCall_def connect_callback_def hangup_callback_def
  handleUserSpeech_def reply_callback_def onresult_def addMessage_def speak_def
  can_wait_def trim_def is_space_def Let_def

lemma reply_hello: "generateResponse L now ''hello'' = greeting_reply"
  by code_simp

lemma run_about_to_connect:
  "run L [Click_start, Wait 1500] (init True True) = Some about_to_connect"
  by (simp add: about_to_connect_def handlers)

lemma step_in_call: "step L Timeout_fires about_to_connect = Some in_call"
  by (simp add: about_to_connect_def in_call_def)

text \<open>
  The part of claim C7 that holds on every run: whatever the state before, when a step
  makes the session active the message list is exactly the greeting, stamped with the
  time of that step, and the transcript buffer is what it was.
\<close>

lemma activation_messages:
  assumes "step L e s = Some s'" and "callStatus s \<noteq> active" and "callStatus s' = active"
  shows "messages s' = [\<lparr>role = assistant, content = greeting, timestamp = clock s\<rparr>]"
    and "transcript s' = transcript s"
proof -
  from becomes_active [OF assms] obtain rest
    where "s' = connect_callback (s\<lparr>timeouts := rest\<rparr>)" by blast
  then show "messages s' = [\<lparr>role = assistant, content = greeting, timestamp = clock s\<rparr>]"
    and "transcript s' = transcript s"
    by (simp_all add: connect_fields)
qed

text \<open>
  Claim C7. The claim says that a session that becomes active holds the greeting alone
  and no transcript text of a previous call. In the run \<open>second_call_ended\<close> the text "foo"
  is recognised in an active call and the caller hangs up (status ended); the connect
  callback of an earlier Start Call, which \<open>endCall\<close> has left pending, then makes the
  session active again: the message list is the greeting alone, but the transcript
  buffer still holds "foo" of the call before.
\<close>

theorem transcript_carried_over:
  "map_option callStatus (run sample_platform second_call (init True True)) = Some active
   \<and> map_option callStatus (run sample_platform second_call_ended (init True True))
       = Some ended
   \<and> map_option callStatus
         (run sample_platform (second_call_ended @ [Timeout_fires]) (init True True))
       = Some active
   \<and> map_option messages
         (run sample_platform (second_call_ended @ [Timeout_fires]) (init True True))
       = Some [\<lparr>role = assistant, content = greeting, timestamp = 5050\<rparr>]
   \<and> map_option transcript
         (run sample_platform (second_call_ended @ [Timeout_fires]) (init True True))
       = Some ''foo''"
  by (simp add: second_call_ended_def second_call_def handlers)

subsection \<open>Hanging up\<close>

text \<open>
  Claim C1. The run \<open>hangup_before_reply\<close> ends in status ended with two messages, the
  greeting and the caller's "hello". The timeout that fires next is the reply scheduled
  by \<open>handleUserSpeech\<close>: the status is still ended, and the reply has been appended to
  the message list and handed to speech output.
\<close>

theorem reply_appended_after_hangup:
  "map_option callStatus (run sample_platform hangup_before_reply (init True True))
     = Some ended
   \<and> map_option messages (run sample_platform hangup_before_reply (init True True))
     = Some [\<lparr>role = assistant, content = greeting, timestamp = 1500\<rparr>,
             \<lparr>role = user, content = ''hello'', timestamp = 2000\<rparr>]
   \<and> map_option callStatus
         (run sample_platform (hangup_before_reply @ [Timeout_fires]) (init True True))
     = Some ended
   \<and> map_option messages
         (run sample_platform (hangup_before_reply @ [Timeout_fires]) (init True True))
     = Some [\<lparr>role = assistant, content = greeting, timestamp = 1500\<rparr>,
             \<lparr>role = user, content = ''hello'', timestamp = 2000\<rparr>,
             \<lparr>role = assistant, content = greeting_reply, timestamp = 2500\<rparr>]
   \<and> map_option synthRef
         (run sample_platform (hangup_before_reply @ [Timeout_fires]) (init True True))
     = Some (Some [\<lparr>utterance_text = greeting_reply\<rparr>])"
  by (simp add: hangup_before_reply_def handlers reply_hello)

text \<open>
  Claim C2. The run \<open>hangup_while_connecting\<close> ends in status ended. The connect callback
  fires next and the status is active; 600 ms later the hang-up callback fires and the
  status is idle. Neither ended to active nor active to idle is a documented edge.
\<close>

theorem stale_connect_reactivates:
  "map_option callStatus (run sample_platform hangup_while_connecting (init True True))
     = Some ended
   \<and> map_option callStatus
         (run sample_platform (hangup_while_connecting @ [Timeout_fires]) (init True True))
     = Some active
   \<and> map_option callStatus
         (run sample_platform (hangup_while_connecting @ [Timeout_fires, Wait 600])
            (init True True))
     = Some active
   \<and> map_option callStatus
         (run sample_platform
            (hangup_while_connecting @ [Timeout_fires, Wait 600, Timeout_fires])
            (init True True))
     = Some idle
   \<and> \<not> documented_edge ended active \<and> \<not> documented_edge active idle"
  by (simp add: hangup_while_connecting_def handlers documented_edge_def)

text \<open>
  Claim C8, as amended. \<open>endCall\<close> leaves the session ended, not listening, with no speech
  pending, \<^verbatim>\<open>timerRef\<close> empty and the interval timer it named no longer running. A second
  \<open>endCall\<close> from that state, at whatever time \<open>c\<close> and with whatever callbacks \<open>ts\<close> still
  scheduled, has no branch that fails and changes nothing of all this; it has one effect:
  one more hang-up callback is scheduled, 2000 ms after the second call.
\<close>

theorem endCall_twice:
  "callStatus (endCall s) = ended \<and> recognitionRef (endCall s) \<noteq> Some True
   \<and> pending_speech (endCall s) = 0 \<and> timerRef (endCall s) = None
   \<and> (timerRef s = Some i \<longrightarrow> i \<notin> fst ` set (intervals (endCall s)))
   \<and> endCall ((endCall s)\<lparr>timeouts := ts, clock := c\<rparr>)
       = (endCall s)\<lparr>timeouts := ts @ [(c + 2000, Hangup)], clock := c\<rparr>"
proof -
  have a: "callStatus (endCall s) = ended \<and> recognitionRef (endCall s) \<noteq> Some True
   \<and> pending_speech (endCall s) = 0 \<and> timerRef (endCall s) = None"
    by (cases "recognitionRef s"; cases "synthRef s")
      (simp_all add: endCall_fields pending_speech_def)
  have b: "i \<notin> fst ` set (intervals (endCall s))" if "timerRef s = Some i"
    using that by (auto simp: endCall_fields)
  have c: "endCall ((endCall s)\<lparr>timeouts := ts, clock := c\<rparr>)
       = (endCall s)\<lparr>timeouts := ts @ [(c + 2000, Hangup)], clock := c\<rparr>"
    by (cases "recognitionRef s"; cases "synthRef s"; cases "timerRef s")
      (simp_all add: endCall_def)
  from a b c show ?thesis by blast
qed

theorem endCall_twice_witness:
  "timerRef in_call = Some 1 \<and> intervals in_call = [(1, 2500)]
   \<and> 1 \<notin> fst ` set (intervals (endCall in_call))
   \<and> endCall ((endCall in_call)\<lparr>timeouts := [(3500, Hangup)], clock := 1600\<rparr>)
       = (endCall in_call)\<lparr>timeouts := [(3500, Hangup), (3600, Hangup)], clock := 1600\<rparr>"
proof -
  have h: "timerRef in_call = Some 1"
    by (simp add: in_call_def connect_fields about_to_connect_def)
  have i: "intervals in_call = [(1, 2500)]"
    by (simp add: in_call_def connect_fields about_to_connect_def)
  note t = endCall_twice
             [where s = in_call and i = 1 and ts = "[(3500, Hangup)]" and c = 1600]
  from t h have n: "1 \<notin> fst ` set (intervals (endCall in_call))" by blast
  from t have "endCall ((endCall in_call)\<lparr>timeouts := [(3500, Hangup)], clock := 1600\<rparr>)
       = (endCall in_call)\<lparr>timeouts := [(3500, Hangup)] @ [(1600 + 2000, Hangup)],
                            clock := 1600\<rparr>"
    by blast
  then have e: "endCall ((endCall in_call)\<lparr>timeouts := [(3500, Hangup)], clock := 1600\<rparr>)
       = (endCall in_call)\<lparr>timeouts := [(3500, Hangup), (3600, Hangup)], clock := 1600\<rparr>"
    by simp
  show ?thesis by (intro conjI) (rule h i n e)+
qed

text \<open>
  Claim C8, as stated, fails: the state after a second \<open>endCall\<close> is not the state after
  the first, two hang-up callbacks are scheduled instead of one.
\<close>

theorem endCall_not_idempotent:
  "endCall (endCall in_call) \<noteq> endCall in_call
   \<and> timeouts (endCall in_call) = [(3500, Hangup)]
   \<and> timeouts (endCall (endCall in_call)) = [(3500, Hangup), (3500, Hangup)]"
proof -
  have a: "timeouts (endCall in_call) = [(3500, Hangup)]"
    by (simp add: endCall_fields in_call_def connect_fields about_to_connect_def)
  have b: "timeouts (endCall (endCall in_call)) = [(3500, Hangup), (3500, Hangup)]"
    by (simp add: endCall_fields in_call_def connect_fields about_to_connect_def)
  have "endCall (endCall in_call) \<noteq> endCall in_call"
  proof
    assume "endCall (endCall in_call) = endCall in_call"
    then have "timeouts (endCall (endCall in_call)) = timeouts (endCall in_call)" by simp
    with a b show False by simp
  qed
  with a b show ?thesis by simp
qed

subsection \<open>Speech output\<close>

lemma speech_step:
  assumes "pending_speech s \<le> 1" and "step L e s = Some s'"
  shows "pending_speech s' \<le> 1"
proof (cases e)
  case Click_start
  with assms show ?thesis by (auto simp: pending_speech_def startCall_def split: if_splits)
next
  case Click_end
  with assms show ?thesis
    by (cases "synthRef s") (auto simp: pending_speech_def endCall_fields split: if_splits)
next
  case (Recognition_result rs)
  with assms show ?thesis by (auto simp: pending_speech_def onresult_fields split: if_splits)
next
  case Utterance_done
  with assms show ?thesis
    by (auto simp: pending_speech_def split: option.splits list.splits)
next
  case Timeout_fires
  with assms obtain c rest where s': "s' = run_callback L c (s\<lparr>timeouts := rest\<rparr>)"
    by (auto split: option.splits)
  show ?thesis unfolding s'
    by (cases c; cases "synthRef s")
      (use assms(1) in \<open>simp_all add: pending_speech_def connect_fields reply_fields
         hangup_callback_def\<close>)
next
  case Interval_fires
  with assms show ?thesis by (auto simp: pending_speech_def split: option.splits)
next
  case (Wait d)
  with assms show ?thesis by (auto simp: pending_speech_def split: if_splits)
qed

lemma speech_run:
  "pending_speech s \<le> 1 \<Longrightarrow> run L es s = Some s' \<Longrightarrow> pending_speech s' \<le> 1"
proof (induction es arbitrary: s)
  case Nil
  then show ?case by simp
next
  case (Cons e es)
  from Cons.prems(2) obtain s1 where s1: "step L e s = Some s1" and r: "run L es s1 = Some s'"
    by (auto split: option.splits)
  from Cons.IH [OF speech_step [OF Cons.prems(1) s1] r] show ?case .
qed

text \<open>
  Claim C9. After \<open>speak\<close> the speech queue, where the browser has one, holds the new
  utterance and nothing else, whatever it held before; so it is after a reply callback,
  which speaks its reply; and in every state of every run from the initial state at most
  one utterance is pending.
\<close>

theorem speak_replaces_pending:
  "synthRef (speak u s) = map_option (\<lambda>q. [\<lparr>utterance_text = u\<rparr>]) (synthRef s)
   \<and> synthRef (reply_callback L u s)
       = map_option (\<lambda>q. [\<lparr>utterance_text = generateResponse L (clock s) u\<rparr>]) (synthRef s)
   \<and> (run L es (init r y) = Some s' \<longrightarrow> pending_speech s' \<le> 1)"
proof -
  have "pending_speech (init r y) \<le> 1" by (simp add: pending_speech_def init_def)
  from speech_run [OF this] show ?thesis by (simp add: speak_fields reply_fields)
qed

theorem speak_replaces_pending_witness:
  "run sample_platform [Click_start, Wait 1500] (init True True) = Some about_to_connect
   \<and> pending_speech about_to_connect \<le> 1
   \<and> synthRef (speak ''hello'' in_call) = Some [\<lparr>utterance_text = ''hello''\<rparr>]"
proof -
  note t = speak_replaces_pending
             [of "''hello''" in_call sample_platform "[Click_start, Wait 1500]" True True
                 about_to_connect]
  from t run_about_to_connect have p: "pending_speech about_to_connect \<le> 1" by blast
  from t have "synthRef (speak ''hello'' in_call)
                 = map_option (\<lambda>q. [\<lparr>utterance_text = ''hello''\<rparr>]) (synthRef in_call)"
    by (rule conjunct1)
  then have q: "synthRef (speak ''hello'' in_call) = Some [\<lparr>utterance_text = ''hello''\<rparr>]"
    by (simp add: in_call_def connect_fields about_to_connect_def)
  show ?thesis by (intro conjI) (rule run_about_to_connect p q)+
qed

end
